theory Spec2Isabelle
  imports Main "HOL-Library.Char_ord" "HOL-Library.List_Lexorder"
begin

section \<open>Entity spaces of ezdxf (\<^verbatim>\<open>src/ezdxf/entityspace.py\<close>)\<close>

text \<open>
  The module keeps, for every layout of a drawing, the ordered list of the handles of
  its entities (class \<^verbatim>\<open>EntitySpace\<close>, a Python list), and a dictionary from layout
  keys to these lists (class \<^verbatim>\<open>LayoutSpaces\<close>). The entities themselves live in an
  entity database shared by all spaces.

  The embedding is shallow. Python objects that are mutated and shared become explicit
  state: every \<^verbatim>\<open>EntitySpace\<close> object is a cell of a store, addressed by its index,
  so that two variables naming the same space are two equal addresses. Exceptions are
  values, and an exception leaves the state as it was when it was raised.
\<close>

subsection \<open>Records of the entity database\<close>

type_synonym handle = string
type_synonym key = int

text \<open>A tag group: DXF tags in file order, each a group code and a value.\<close>

type_synonym tags = "(int \<times> int) list"

datatype error = DXFStructureError string | KeyError | ValueError

text \<open>
  Modelled from the spec: the record type of the entity database (class
  \<^verbatim>\<open>ClassifiedTags\<close> of \<^verbatim>\<open>ezdxf.lldxf\<close>, not part of the module). The spec gives a
  record a handle, assigned before the record reaches this layer, an optional link to
  a continuation record, a base tag group (\<^verbatim>\<open>noclass\<close>) with the paper-space flag
  (group code 67) and the owner reference (group code 330), and named tag groups, of
  which the entity-level group \<^verbatim>\<open>AcDbEntity\<close> may be missing.
\<close>

record classified_tags =
  handle :: handle
  link :: "handle option"
  noclass :: tags
  subclasses :: "(string \<times> tags) list"

text \<open>
  Modelled from the spec: \<^verbatim>\<open>Tags.get_first_value(code, default)\<close>, the value of the
  first tag with the group code, the default when there is none.
\<close>

fun get_first_value :: "tags \<Rightarrow> int \<Rightarrow> int \<Rightarrow> int" where
  "get_first_value [] code dflt = dflt"
| "get_first_value ((c, v) # ts) code dflt =
     (if c = code then v else get_first_value ts code dflt)"

text \<open>
  Modelled from the spec: \<^verbatim>\<open>Tags.get_first_value(code)\<close> called without a default.
  The spec does not say what the read gives on a tag group without the tag; the model
  makes it an exception of its own, \<open>ValueError\<close>.
\<close>

fun get_first_value_nodefault :: "tags \<Rightarrow> int \<Rightarrow> error + int" where
  "get_first_value_nodefault [] code = Inl ValueError"
| "get_first_value_nodefault ((c, v) # ts) code =
     (if c = code then Inr v else get_first_value_nodefault ts code)"

text \<open>
  Modelled from the spec: \<^verbatim>\<open>Tags.set_first(code, value)\<close> writes the value into the
  first tag with the group code, and appends a new tag when there is none.
\<close>

fun set_first :: "tags \<Rightarrow> int \<Rightarrow> int \<Rightarrow> tags" where
  "set_first [] code v = [(code, v)]"
| "set_first ((c, w) # ts) code v =
     (if c = code then (code, v) # ts else (c, w) # set_first ts code v)"

text \<open>
  Modelled from the spec: \<^verbatim>\<open>ClassifiedTags.get_subclass(name)\<close>, the tag group of that
  name, \<open>KeyError\<close> when the record has none.
\<close>

fun get_subclass :: "(string \<times> tags) list \<Rightarrow> string \<Rightarrow> error + tags" where
  "get_subclass [] name = Inl KeyError"
| "get_subclass ((n, ts) # rest) name =
     (if n = name then Inr ts else get_subclass rest name)"

text \<open>
  Modelled from the spec: an entity object as \<^verbatim>\<open>delete_entity\<close> receives it. It wraps
  a record (\<^verbatim>\<open>entity.tags\<close>); \<^verbatim>\<open>entity.dxf.handle\<close> is the record's handle.
\<close>

record dxf_entity =
  tags :: classified_tags

definition dxf_handle :: "dxf_entity \<Rightarrow> handle" where
  "dxf_handle entity = handle (tags entity)"

subsection \<open>The state\<close>

type_synonym addr = nat

text \<open>
  \<open>entitydb\<close> is the shared entity database: every space that the registry creates
  is given the registry's own database, so the state has one. \<open>space_store\<close> holds the
  \<^verbatim>\<open>EntitySpace\<close> objects: the object at address \<open>a\<close> is the handle list
  \<open>space_store s ! a\<close>, and creating an object appends a cell. The other three fields
  are the attributes of the \<^verbatim>\<open>LayoutSpaces\<close> object: \<^verbatim>\<open>_layout_spaces\<close>,
  \<^verbatim>\<open>_dxfversion\<close> and the function \<^verbatim>\<open>_get_key\<close> chosen by the constructor.
\<close>

record state =
  entitydb :: "handle \<rightharpoonup> classified_tags"
  space_store :: "handle list list"
  layout_spaces :: "key \<rightharpoonup> addr"
  dxfversion :: string
  get_key :: "classified_tags \<Rightarrow> key"

text \<open>Every registered space is an object of the store.\<close>

definition wf_state :: "state \<Rightarrow> bool" where
  "wf_state s \<longleftrightarrow> (\<forall>k a. layout_spaces s k = Some a \<longrightarrow> a < length (space_store s))"

subsection \<open>\<^verbatim>\<open>EntitySpace\<close>\<close>

text \<open>\<^verbatim>\<open>EntitySpace(entitydb)\<close>: a new, empty list object; its address is returned.\<close>

definition EntitySpace_init :: "state \<Rightarrow> addr \<times> state" where
  "EntitySpace_init s = (length (space_store s), s\<lparr>space_store := space_store s @ [[]]\<rparr>)"

definition get_tags_by_handle :: "state \<Rightarrow> handle \<Rightarrow> error + classified_tags" where
  "get_tags_by_handle s h = (case entitydb s h of None \<Rightarrow> Inl KeyError | Some t \<Rightarrow> Inr t)"

definition add_handle :: "addr \<Rightarrow> handle \<Rightarrow> state \<Rightarrow> state" where
  "add_handle a h s = s\<lparr>space_store := (space_store s)[a := space_store s ! a @ [h]]\<rparr>"

definition EntitySpace_store_tags :: "addr \<Rightarrow> classified_tags \<Rightarrow> state \<Rightarrow> handle \<times> state" where
  "EntitySpace_store_tags a t s = (handle t, add_handle a (handle t) s)"

text \<open>\<^verbatim>\<open>list.remove\<close> drops the first occurrence and raises \<open>ValueError\<close> when there is none.\<close>

definition EntitySpace_delete_entity :: "addr \<Rightarrow> dxf_entity \<Rightarrow> state \<Rightarrow> (error \<times> state) + state" where
  "EntitySpace_delete_entity a entity s =
     (if dxf_handle entity \<in> set (space_store s ! a)
      then Inr (s\<lparr>space_store := (space_store s)[a := remove1 (dxf_handle entity) (space_store s ! a)]\<rparr>)
      else Inl (ValueError, s))"

definition EntitySpace_delete_all_entities :: "addr \<Rightarrow> state \<Rightarrow> state" where
  "EntitySpace_delete_all_entities a s = s\<lparr>space_store := (space_store s)[a := []]\<rparr>"

text \<open>
  \<^verbatim>\<open>EntitySpace.write\<close>. The tag writer is the list of the records written so far.
  The inner \<^verbatim>\<open>while handle is not None\<close> loop follows the links and need not end
  (a link may lead back into its own chain), so it is a partial function: \<open>None\<close> is
  a loop that never returns. An exception keeps what was written before it.
\<close>

partial_function (option) write_linked ::
  "(handle \<rightharpoonup> classified_tags) \<Rightarrow> handle option \<Rightarrow> classified_tags list
     \<Rightarrow> ((error \<times> classified_tags list) + classified_tags list) option" where
  "write_linked db h tagwriter =
     (case h of
        None \<Rightarrow> Some (Inr tagwriter)
      | Some h' \<Rightarrow>
          (case db h' of
             None \<Rightarrow> Some (Inl (KeyError, tagwriter))
           | Some t \<Rightarrow> write_linked db (link t) (tagwriter @ [t])))"

declare write_linked.simps [code]

fun write_handles ::
  "(handle \<rightharpoonup> classified_tags) \<Rightarrow> handle list \<Rightarrow> classified_tags list
     \<Rightarrow> ((error \<times> classified_tags list) + classified_tags list) option" where
  "write_handles db [] tagwriter = Some (Inr tagwriter)"
| "write_handles db (h # hs) tagwriter =
     (case write_linked db (Some h) tagwriter of
        None \<Rightarrow> None
      | Some (Inl e) \<Rightarrow> Some (Inl e)
      | Some (Inr tagwriter') \<Rightarrow> write_handles db hs tagwriter')"

definition EntitySpace_write ::
  "addr \<Rightarrow> state \<Rightarrow> classified_tags list
     \<Rightarrow> ((error \<times> classified_tags list) + classified_tags list) option" where
  "EntitySpace_write a s tagwriter = write_handles (entitydb s) (space_store s ! a) tagwriter"

subsection \<open>\<^verbatim>\<open>LayoutSpaces\<close>\<close>

definition LayoutSpaces_init :: "(handle \<rightharpoonup> classified_tags) \<Rightarrow> string \<Rightarrow> state" where
  "LayoutSpaces_init db version =
     \<lparr> entitydb = db, space_store = [], layout_spaces = Map.empty, dxfversion = version,
       get_key = (if version \<le> ''AC1009''
                  then (\<lambda>t. get_first_value (noclass t) 67 0)
                  else (\<lambda>t. get_first_value (noclass t) 330 0)) \<rparr>"

definition set_entity_space :: "key \<Rightarrow> addr \<Rightarrow> state \<Rightarrow> state" where
  "set_entity_space k a s = s\<lparr>layout_spaces := (layout_spaces s)(k \<mapsto> a)\<rparr>"

definition get_entity_space :: "key \<Rightarrow> state \<Rightarrow> addr \<times> state" where
  "get_entity_space k s =
     (case layout_spaces s k of
        Some a \<Rightarrow> (a, s)
      | None \<Rightarrow> (case EntitySpace_init s of (a, s') \<Rightarrow> (a, set_entity_space k a s')))"

definition store_tags :: "classified_tags \<Rightarrow> state \<Rightarrow> state" where
  "store_tags t s =
     (case get_entity_space (get_key s t) s of
        (a, s') \<Rightarrow> snd (EntitySpace_store_tags a t s'))"

definition delete_entity :: "dxf_entity \<Rightarrow> state \<Rightarrow> (error \<times> state) + state" where
  "delete_entity entity s =
     (case layout_spaces s (get_key s (tags entity)) of
        None \<Rightarrow> Inr s
      | Some a \<Rightarrow> EntitySpace_delete_entity a entity s)"

text \<open>\<^verbatim>\<open>delete_entity_space\<close> fails with \<open>KeyError\<close> when the key is not registered.\<close>

definition delete_entity_space :: "key \<Rightarrow> state \<Rightarrow> (error \<times> state) + state" where
  "delete_entity_space k s =
     (case layout_spaces s k of
        None \<Rightarrow> Inl (KeyError, s)
      | Some a \<Rightarrow>
          (case EntitySpace_delete_all_entities a s of
             s' \<Rightarrow> Inr (s'\<lparr>layout_spaces := (layout_spaces s')(k := None)\<rparr>)))"

text \<open>
  The two passes of \<^verbatim>\<open>repair_owner_tags\<close>. The tag-fix pass changes records of the
  database and no list, so its \<^verbatim>\<open>for\<close> loop is a recursion over the handles of the
  temporary space.
\<close>

definition update_entity_tags_body ::
  "key \<Rightarrow> key \<Rightarrow> handle \<Rightarrow> state \<Rightarrow> (error \<times> state) + state" where
  "update_entity_tags_body model_space_key paper_space_key h s =
     (case get_tags_by_handle s h of
        Inl e \<Rightarrow> Inl (e, s)
      | Inr t \<Rightarrow>
          (case get_subclass (subclasses t) ''AcDbEntity'' of
             Inl e \<Rightarrow> Inl (DXFStructureError ''Entity has no subclass 'AcDbEntity'.'', s)
           | Inr entity_tags \<Rightarrow>
               (let k = (if get_first_value entity_tags 67 0 = 0
                         then model_space_key else paper_space_key)
                in Inr (s\<lparr>entitydb := (entitydb s)(h \<mapsto> t\<lparr>noclass := set_first (noclass t) 330 k\<rparr>)\<rparr>))))"

fun update_entity_tags_loop ::
  "key \<Rightarrow> key \<Rightarrow> handle list \<Rightarrow> state \<Rightarrow> (error \<times> state) + state" where
  "update_entity_tags_loop mk pk [] s = Inr s"
| "update_entity_tags_loop mk pk (h # hs) s =
     (case update_entity_tags_body mk pk h s of
        Inl e \<Rightarrow> Inl e
      | Inr s' \<Rightarrow> update_entity_tags_loop mk pk hs s')"

definition update_entity_tags :: "key \<Rightarrow> key \<Rightarrow> addr \<Rightarrow> state \<Rightarrow> (error \<times> state) + state" where
  "update_entity_tags mk pk a s = update_entity_tags_loop mk pk (space_store s ! a) s"

text \<open>
  The redistribution pass appends to the model and paper spaces while it iterates over
  the temporary space. These may be the same list object, and a Python list iterator
  reads the list it walks at every step (index against current length), so the loop
  is written with the index and the current state, and it is a partial function.
\<close>

definition distribute_body ::
  "key \<Rightarrow> key \<Rightarrow> addr \<Rightarrow> addr \<Rightarrow> handle \<Rightarrow> state \<Rightarrow> (error \<times> state) + state" where
  "distribute_body model_space_key paper_space_key model_space paper_space h s =
     (case get_tags_by_handle s h of
        Inl e \<Rightarrow> Inl (e, s)
      | Inr t \<Rightarrow>
          (case get_first_value_nodefault (noclass t) 330 of
             Inl e \<Rightarrow> Inl (e, s)
           | Inr owner \<Rightarrow>
               if owner = model_space_key then Inr (add_handle model_space h s)
               else if owner = paper_space_key then Inr (add_handle paper_space h s)
               else Inl (DXFStructureError (''Invalid owner handle '' @ h), s)))"

partial_function (option) distribute_loop ::
  "key \<Rightarrow> key \<Rightarrow> addr \<Rightarrow> addr \<Rightarrow> addr \<Rightarrow> nat \<Rightarrow> state \<Rightarrow> ((error \<times> state) + state) option" where
  "distribute_loop mk pk entity_space model_space paper_space i s =
     (if i < length (space_store s ! entity_space)
      then (case distribute_body mk pk model_space paper_space (space_store s ! entity_space ! i) s of
              Inl e \<Rightarrow> Some (Inl e)
            | Inr s' \<Rightarrow> distribute_loop mk pk entity_space model_space paper_space (Suc i) s')
      else Some (Inr s))"

declare distribute_loop.simps [code]

definition distribute ::
  "key \<Rightarrow> key \<Rightarrow> addr \<Rightarrow> addr \<Rightarrow> addr \<Rightarrow> state \<Rightarrow> ((error \<times> state) + state) option" where
  "distribute mk pk entity_space model_space paper_space s =
     distribute_loop mk pk entity_space model_space paper_space 0 s"

definition repair_owner_tags :: "key \<Rightarrow> key \<Rightarrow> state \<Rightarrow> ((error \<times> state) + state) option" where
  "repair_owner_tags model_space_key paper_space_key s =
     (if dxfversion s \<le> ''AC1009'' then Some (Inr s)
      else
        (case layout_spaces s 0 of
           None \<Rightarrow> Some (Inr s)
         | Some temp_model_space \<Rightarrow>
             (case get_entity_space model_space_key s of
                (model_space, s1) \<Rightarrow>
                  (case get_entity_space paper_space_key s1 of
                     (paper_space, s2) \<Rightarrow>
                       (case update_entity_tags model_space_key paper_space_key temp_model_space s2 of
                          Inl e \<Rightarrow> Some (Inl e)
                        | Inr s3 \<Rightarrow>
                            (case distribute model_space_key paper_space_key
                                    temp_model_space model_space paper_space s3 of
                               None \<Rightarrow> None
                             | Some (Inl e) \<Rightarrow> Some (Inl e)
                             | Some (Inr s4) \<Rightarrow>
                                 Some (Inr (s4\<lparr>layout_spaces := (layout_spaces s4)(0 := None)\<rparr>))))))))"

subsection \<open>Predicates of the specification\<close>

text \<open>
  After the tag-fix pass the owner tag of a record is the key that its paper-space
  flag selects: the flag is group code 67 of the tag group \<^verbatim>\<open>AcDbEntity\<close>, 0 when
  the tag is missing.
\<close>

definition owner_fixed :: "key \<Rightarrow> key \<Rightarrow> (handle \<rightharpoonup> classified_tags) \<Rightarrow> handle \<Rightarrow> bool" where
  "owner_fixed mk pk db h =
     (case db h of
        None \<Rightarrow> False
      | Some t \<Rightarrow>
          (case get_subclass (subclasses t) ''AcDbEntity'' of
             Inl e \<Rightarrow> False
           | Inr entity_tags \<Rightarrow>
               get_first_value_nodefault (noclass t) 330 =
                 Inr (if get_first_value entity_tags 67 0 = 0 then mk else pk)))"

text \<open>The tag-fix pass rewrites base tag groups only.\<close>

definition same_subclasses ::
  "(handle \<rightharpoonup> classified_tags) \<Rightarrow> (handle \<rightharpoonup> classified_tags) \<Rightarrow> bool" where
  "same_subclasses db db' = (\<forall>h. map_option subclasses (db' h) = map_option subclasses (db h))"

text \<open>
  A handle of the temporary space (address \<open>a0\<close>) was appended to the model space
  or to the paper space, whichever its owner tag names, and that space is not the
  temporary space itself.
\<close>

definition routed ::
  "key \<Rightarrow> key \<Rightarrow> addr \<Rightarrow> addr \<Rightarrow> addr \<Rightarrow> (handle \<rightharpoonup> classified_tags) \<Rightarrow> handle list list \<Rightarrow> handle \<Rightarrow> bool" where
  "routed mk pk a0 am ap db ss h =
     (case db h of
        None \<Rightarrow> False
      | Some t \<Rightarrow>
          (get_first_value_nodefault (noclass t) 330 = Inr mk \<and> am \<noteq> a0 \<and> h \<in> set (ss ! am)) \<or>
          (get_first_value_nodefault (noclass t) 330 = Inr pk \<and> pk \<noteq> mk \<and> ap \<noteq> a0 \<and> h \<in> set (ss ! ap)))"

text \<open>The handle is in the space that the registry holds under the key.\<close>

definition in_space :: "state \<Rightarrow> key \<Rightarrow> handle \<Rightarrow> bool" where
  "in_space s k h = (case layout_spaces s k of None \<Rightarrow> False | Some a \<Rightarrow> h \<in> set (space_store s ! a))"

text \<open>
  The records that \<^verbatim>\<open>write\<close> emits for one handle: the record of the handle, then
  the record its link names, and so on; the last record has no link.
\<close>

fun is_chain :: "(handle \<rightharpoonup> classified_tags) \<Rightarrow> handle option \<Rightarrow> classified_tags list \<Rightarrow> bool" where
  "is_chain db h [] = (h = None)"
| "is_chain db h (r # rs) =
     (case h of None \<Rightarrow> False | Some h' \<Rightarrow> db h' = Some r \<and> is_chain db (link r) rs)"

text \<open>
  The registry is the partition of the records \<open>ts\<close> by their keys: under every key
  is a space of its own with the handles of the records of that key, in their order.
\<close>

definition partitioned :: "classified_tags list \<Rightarrow> state \<Rightarrow> bool" where
  "partitioned ts s \<longleftrightarrow>
     wf_state s \<and>
     (\<forall>k k' a. layout_spaces s k = Some a \<longrightarrow> layout_spaces s k' = Some a \<longrightarrow> k = k') \<and>
     (\<forall>k. (case layout_spaces s k of None \<Rightarrow> [] | Some a \<Rightarrow> space_store s ! a) =
            map handle (filter (\<lambda>t. get_key s t = k) ts))"

subsection \<open>Example registries\<close>

text \<open>
  Three records without an owner tag, their paper-space flags 0 (absent), 1 and 0, a
  record owned by layout 100, and the registries that \<^verbatim>\<open>store_tags\<close> builds from them
  for a newer and for a legacy format version.
\<close>

definition rec_A :: classified_tags where
  "rec_A = \<lparr>handle = ''A'', link = None, noclass = [(5, 10)],
            subclasses = [(''AcDbEntity'', [(8, 0)])]\<rparr>"

definition rec_B :: classified_tags where
  "rec_B = \<lparr>handle = ''B'', link = None, noclass = [(5, 11)],
            subclasses = [(''AcDbEntity'', [(8, 0), (67, 1)])]\<rparr>"

definition rec_C :: classified_tags where
  "rec_C = \<lparr>handle = ''C'', link = None, noclass = [(5, 12)],
            subclasses = [(''AcDbEntity'', [(67, 0)])]\<rparr>"

definition rec_D :: classified_tags where
  "rec_D = \<lparr>handle = ''D'', link = None, noclass = [(5, 13), (330, 100)],
            subclasses = [(''AcDbEntity'', [(67, 0)])]\<rparr>"

definition example_db :: "handle \<rightharpoonup> classified_tags" where
  "example_db = [''A'' \<mapsto> rec_A, ''B'' \<mapsto> rec_B, ''C'' \<mapsto> rec_C, ''D'' \<mapsto> rec_D]"

definition example_registry :: state where
  "example_registry =
     store_tags rec_C (store_tags rec_B (store_tags rec_A (LayoutSpaces_init example_db ''AC1018'')))"

definition legacy_registry :: state where
  "legacy_registry = store_tags rec_A (LayoutSpaces_init example_db ''AC1009'')"

definition owned_registry :: state where
  "owned_registry = store_tags rec_D (LayoutSpaces_init example_db ''AC1018'')"

text \<open>
  A registry with one entity, one whose second entity has no \<^verbatim>\<open>AcDbEntity\<close> group,
  and the example registry after its repair with the keys 100 and 200.
\<close>

definition rec_E :: classified_tags where
  "rec_E = \<lparr>handle = ''E'', link = None, noclass = [(5, 14)], subclasses = []\<rparr>"


definition broken_registry :: state where
  "broken_registry =
     store_tags rec_E (store_tags rec_A (LayoutSpaces_init (example_db(''E'' \<mapsto> rec_E)) ''AC1018''))"

definition repaired_registry :: state where
  "repaired_registry =
     \<lparr> entitydb = example_db
         (''A'' \<mapsto> rec_A\<lparr>noclass := [(5, 10), (330, 100)]\<rparr>,
          ''B'' \<mapsto> rec_B\<lparr>noclass := [(5, 11), (330, 200)]\<rparr>,
          ''C'' \<mapsto> rec_C\<lparr>noclass := [(5, 12), (330, 100)]\<rparr>),
       space_store = [[''A'', ''B'', ''C''], [''A'', ''C''], [''B'']],
       layout_spaces = [100 \<mapsto> 1, 200 \<mapsto> 2],
       dxfversion = ''AC1018'',
       get_key = (\<lambda>t. get_first_value (noclass t) 330 0) \<rparr>"


text \<open>
  A polyline record linked to its vertex record, whose link is empty, in a space
  together with a record without a link; and the four records stored in one registry.
\<close>

definition rec_P :: classified_tags where
  "rec_P = \<lparr>handle = ''P'', link = Some ''V'', noclass = [(5, 20)],
            subclasses = [(''AcDbEntity'', [(8, 0)])]\<rparr>"

definition rec_V :: classified_tags where
  "rec_V = \<lparr>handle = ''V'', link = None, noclass = [(5, 21)],
            subclasses = [(''AcDbEntity'', [(8, 0)])]\<rparr>"

definition linked_registry :: state where
  "linked_registry =
     store_tags rec_A (store_tags rec_P
       (LayoutSpaces_init [''A'' \<mapsto> rec_A, ''P'' \<mapsto> rec_P, ''V'' \<mapsto> rec_V] ''AC1018''))"

definition mixed_registry :: state where
  "mixed_registry =
     fold store_tags [rec_A, rec_B, rec_C, rec_D] (LayoutSpaces_init example_db ''AC1018'')"

section \<open>Properties\<close>

subsection \<open>Evaluating the examples\<close>

lemmas op_defs =
  store_tags_def get_entity_space_def LayoutSpaces_init_def EntitySpace_init_def
  set_entity_space_def EntitySpace_store_tags_def add_handle_def

lemmas rec_defs = rec_A_def rec_B_def rec_C_def rec_D_def

lemma example_registry_eq:
  "example_registry =
     \<lparr> entitydb = example_db, space_store = [[''A'', ''B'', ''C'']],
       layout_spaces = [0 \<mapsto> 0], dxfversion = ''AC1018'',
       get_key = (\<lambda>t. get_first_value (noclass t) 330 0) \<rparr>"
  by (simp add: example_registry_def op_defs rec_defs)

lemma legacy_registry_eq:
  "legacy_registry =
     \<lparr> entitydb = example_db, space_store = [[''A'']],
       layout_spaces = [0 \<mapsto> 0], dxfversion = ''AC1009'',
       get_key = (\<lambda>t. get_first_value (noclass t) 67 0) \<rparr>"
  by (simp add: legacy_registry_def op_defs rec_defs)

lemma owned_registry_eq:
  "owned_registry =
     \<lparr> entitydb = example_db, space_store = [[''D'']],
       layout_spaces = [100 \<mapsto> 0], dxfversion = ''AC1018'',
       get_key = (\<lambda>t. get_first_value (noclass t) 330 0) \<rparr>"
  by (simp add: owned_registry_def op_defs rec_defs)

lemma wf_example_registry: "wf_state example_registry"
  by (simp add: example_registry_eq wf_state_def)

subsection \<open>The registry and its spaces\<close>

lemma wf_get_entity_space:
  assumes "wf_state s" and "get_entity_space k s = (a, s')"
  shows "wf_state s'" and "a < length (space_store s')" and "layout_spaces s' k = Some a"
  using assms
  by (auto simp: wf_state_def get_entity_space_def EntitySpace_init_def set_entity_space_def
      split: option.splits if_splits)
     (meson less_SucI)

lemma wf_LayoutSpaces_init: "wf_state (LayoutSpaces_init db v)"
  by (simp add: wf_state_def LayoutSpaces_init_def)

lemma wf_store_tags: "wf_state s \<Longrightarrow> wf_state (store_tags t s)"
  by (auto simp: wf_state_def op_defs split: option.splits intro: less_SucI)

text \<open>
  C6: \<^verbatim>\<open>get_entity_space(key)\<close> returns the space registered under the key when there
  is one, and leaves the state as it is; otherwise it creates a new empty space, an
  object that no key names yet, and registers it under the key. No space registered
  before is replaced or changed, and a second call with the same key returns the same
  object and changes nothing.
\<close>

theorem get_entity_space_idempotent:
  assumes "wf_state s" and "get_entity_space k s = (a, s')"
  shows "layout_spaces s' k = Some a \<and>
         (case layout_spaces s k of
            Some b \<Rightarrow> a = b \<and> s' = s
          | None \<Rightarrow> space_store s' ! a = [] \<and>
                   (\<forall>k' b. layout_spaces s k' = Some b \<longrightarrow> b \<noteq> a) \<and>
                   layout_spaces s' = (layout_spaces s)(k \<mapsto> a)) \<and>
         (\<forall>k' b. layout_spaces s k' = Some b \<longrightarrow>
            layout_spaces s' k' = Some b \<and> space_store s' ! b = space_store s ! b) \<and>
         get_entity_space k s' = (a, s')"
  using assms
  by (auto simp: wf_state_def get_entity_space_def EntitySpace_init_def set_entity_space_def
      nth_append split: option.splits if_splits)

theorem get_entity_space_idempotent_witness:
  "wf_state example_registry \<and>
   get_entity_space 100 example_registry =
     (1, snd (get_entity_space 100 example_registry)) \<and>
   layout_spaces (snd (get_entity_space 100 example_registry)) 100 = Some 1 \<and>
   space_store (snd (get_entity_space 100 example_registry)) ! 1 = [] \<and>
   layout_spaces (snd (get_entity_space 100 example_registry)) 0 = Some 0 \<and>
   space_store (snd (get_entity_space 100 example_registry)) ! 0 = [''A'', ''B'', ''C''] \<and>
   get_entity_space 100 (snd (get_entity_space 100 example_registry)) =
     (1, snd (get_entity_space 100 example_registry))"
proof -
  have g: "get_entity_space 100 example_registry =
             (1, snd (get_entity_space 100 example_registry))"
    by (simp add: example_registry_eq get_entity_space_def EntitySpace_init_def
        set_entity_space_def)
  have n: "layout_spaces example_registry 100 = None"
    and t: "layout_spaces example_registry 0 = Some 0"
    and l: "space_store example_registry ! 0 = [''A'', ''B'', ''C'']"
    by (simp_all add: example_registry_eq)
  show ?thesis
    using get_entity_space_idempotent [OF wf_example_registry g] wf_example_registry g t l
    unfolding n by simp
qed

text \<open>
  C7: the constructor chooses the key function from the format version: up to
  \<^verbatim>\<open>AC1009\<close> the key of a record is the value of its paper-space flag (group code 67
  of the base tag group), later it is the value of its owner tag (group code 330),
  0 in both cases when the tag is missing. \<^verbatim>\<open>store_tags\<close> keeps the key function and
  appends the record's handle to the space registered under the record's key, a new
  space if there was none, and changes no other space.
\<close>

theorem store_tags_key_strategy:
  "get_key (LayoutSpaces_init db v) t =
     (if v \<le> ''AC1009'' then get_first_value (noclass t) 67 0
      else get_first_value (noclass t) 330 0)
   \<and> (wf_state s \<longrightarrow>
        get_key (store_tags t s) = get_key s \<and>
        dxfversion (store_tags t s) = dxfversion s \<and>
        (\<exists>a. layout_spaces (store_tags t s) (get_key s t) = Some a \<and>
             space_store (store_tags t s) ! a =
               (case layout_spaces s (get_key s t) of
                  None \<Rightarrow> [] | Some b \<Rightarrow> space_store s ! b) @ [handle t] \<and>
             (\<forall>b < length (space_store s). b \<noteq> a \<longrightarrow>
                space_store (store_tags t s) ! b = space_store s ! b)))"
  by (auto simp: op_defs wf_state_def nth_append split: option.splits)

theorem store_tags_key_strategy_witness:
  "wf_state example_registry \<and>
   get_key (LayoutSpaces_init example_db ''AC1018'') rec_D = 100 \<and>
   get_key (LayoutSpaces_init example_db ''AC1009'') rec_D = 0 \<and>
   get_key (store_tags rec_D example_registry) = get_key example_registry \<and>
   (\<exists>a. layout_spaces (store_tags rec_D example_registry) 100 = Some a \<and>
        space_store (store_tags rec_D example_registry) ! a = [''D''])"
proof -
  note k = store_tags_key_strategy [of example_db _ rec_D example_registry]
  have "get_key (LayoutSpaces_init example_db ''AC1018'') rec_D = 100"
    using k [of "''AC1018''"] by (simp add: rec_D_def)
  moreover have "get_key (LayoutSpaces_init example_db ''AC1009'') rec_D = 0"
    using k [of "''AC1009''"] by (simp add: rec_D_def)
  moreover have "get_key example_registry rec_D = 100"
    by (simp add: example_registry_eq rec_D_def)
  moreover have "layout_spaces example_registry 100 = None"
    by (simp add: example_registry_eq)
  moreover have "handle rec_D = ''D''"
    by (simp add: rec_D_def)
  ultimately show ?thesis
    using k [of "''AC1018''"] wf_example_registry by auto
qed

text \<open>
  C9: \<^verbatim>\<open>delete_entity\<close> of the registry does nothing, and does not fail, when no space
  is registered under the key of the entity's record. When there is one, it removes
  the first occurrence of the entity's handle from that space, and the removal fails
  with \<open>ValueError\<close>, the state unchanged, when the handle is not in the space.
\<close>

theorem delete_entity_absent_space:
  "(case layout_spaces s (get_key s (tags e)) of
      None \<Rightarrow> delete_entity e s = Inr s
    | Some a \<Rightarrow>
        delete_entity e s =
          (if handle (tags e) \<in> set (space_store s ! a)
           then Inr (s\<lparr>space_store :=
                        (space_store s)[a := remove1 (handle (tags e)) (space_store s ! a)]\<rparr>)
           else Inl (ValueError, s)))"
  by (simp add: delete_entity_def EntitySpace_delete_entity_def dxf_handle_def
      split: option.splits)

theorem delete_entity_absent_space_witness:
  "layout_spaces example_registry (get_key example_registry (tags \<lparr>tags = rec_D\<rparr>)) = None \<and>
   delete_entity \<lparr>tags = rec_D\<rparr> example_registry = Inr example_registry \<and>
   layout_spaces example_registry (get_key example_registry (tags \<lparr>tags = rec_B\<rparr>)) = Some 0 \<and>
   delete_entity \<lparr>tags = rec_B\<rparr> example_registry =
     Inr (example_registry\<lparr>space_store := [[''A'', ''C'']]\<rparr>)"
proof -
  have n: "layout_spaces example_registry (get_key example_registry (tags \<lparr>tags = rec_D\<rparr>)) = None"
    by (simp add: example_registry_eq rec_D_def)
  have d: "delete_entity \<lparr>tags = rec_D\<rparr> example_registry = Inr example_registry"
    using delete_entity_absent_space [where s = example_registry and e = "\<lparr>tags = rec_D\<rparr>"]
    unfolding n by simp
  have p: "layout_spaces example_registry (get_key example_registry (tags \<lparr>tags = rec_B\<rparr>)) = Some 0"
    by (simp add: example_registry_eq rec_B_def)
  have "handle (tags \<lparr>tags = rec_B\<rparr>) = ''B''" and "space_store example_registry = [[''A'', ''B'', ''C'']]"
    by (simp_all add: example_registry_eq rec_B_def)
  then have b: "delete_entity \<lparr>tags = rec_B\<rparr> example_registry =
      Inr (example_registry\<lparr>space_store := [[''A'', ''C'']]\<rparr>)"
    using delete_entity_absent_space [where s = example_registry and e = "\<lparr>tags = rec_B\<rparr>"]
    unfolding p by simp
  show ?thesis
    by (intro conjI n d p b)
qed

subsection \<open>Storing records\<close>

lemma partitioned_space:
  assumes "partitioned ts s"
  shows "(case layout_spaces s k of None \<Rightarrow> [] | Some a \<Rightarrow> space_store s ! a) =
            map handle (filter (\<lambda>t. get_key s t = k) ts)"
  using assms unfolding partitioned_def by blast

lemma partitioned_init: "partitioned [] (LayoutSpaces_init db v)"
  by (simp add: partitioned_def LayoutSpaces_init_def wf_state_def)

lemma store_tags_get_key [simp]: "get_key (store_tags t s) = get_key s"
  by (simp add: op_defs split: option.splits)

lemma partitioned_store_tags:
  assumes "partitioned ts s"
  shows "partitioned (ts @ [t]) (store_tags t s)"
proof -
  from assms have wf: "wf_state s"
    and inj: "\<And>k k' a. layout_spaces s k = Some a \<Longrightarrow> layout_spaces s k' = Some a \<Longrightarrow> k = k'"
    unfolding partitioned_def by blast+
  note sp = partitioned_space [OF assms]
  let ?k = "get_key s t"
  show ?thesis
  proof (cases "layout_spaces s ?k")
    case None
    let ?a = "length (space_store s)"
    have s': "store_tags t s =
        s\<lparr>space_store := space_store s @ [[handle t]], layout_spaces := (layout_spaces s)(?k \<mapsto> ?a)\<rparr>"
      using None by (simp add: op_defs)
    have old: "\<And>k b. layout_spaces s k = Some b \<Longrightarrow> b < ?a"
      using wf by (simp add: wf_state_def)
    have e: "map handle (filter (\<lambda>u. get_key s u = ?k) ts) = []"
      using sp [of ?k] None by simp
    show ?thesis
      unfolding partitioned_def
    proof (intro conjI allI impI)
      show "wf_state (store_tags t s)"
        using old by (auto simp: s' wf_state_def less_Suc_eq)
    next
      fix k k' a
      assume "layout_spaces (store_tags t s) k = Some a" "layout_spaces (store_tags t s) k' = Some a"
      then show "k = k'"
        using old inj by (auto simp: s' split: if_splits)
    next
      fix k
      show "(case layout_spaces (store_tags t s) k of None \<Rightarrow> []
             | Some a \<Rightarrow> space_store (store_tags t s) ! a) =
            map handle (filter (\<lambda>u. get_key (store_tags t s) u = k) (ts @ [t]))"
      proof (cases "k = ?k")
        case True
        with e show ?thesis by (simp add: s')
      next
        case False
        with sp [of k] old show ?thesis
          by (auto simp: s' nth_append split: option.splits)
      qed
    qed
  next
    case (Some a)
    have al: "a < length (space_store s)"
      using wf Some by (simp add: wf_state_def)
    have s': "store_tags t s = s\<lparr>space_store := (space_store s)[a := space_store s ! a @ [handle t]]\<rparr>"
      using Some by (simp add: op_defs)
    show ?thesis
      unfolding partitioned_def
    proof (intro conjI allI impI)
      show "wf_state (store_tags t s)"
        using wf by (simp add: s' wf_state_def)
    next
      fix k k' b
      assume "layout_spaces (store_tags t s) k = Some b" "layout_spaces (store_tags t s) k' = Some b"
      then show "k = k'"
        using inj by (simp add: s')
    next
      fix k
      show "(case layout_spaces (store_tags t s) k of None \<Rightarrow> []
             | Some a \<Rightarrow> space_store (store_tags t s) ! a) =
            map handle (filter (\<lambda>u. get_key (store_tags t s) u = k) (ts @ [t]))"
      proof (cases "k = ?k")
        case True
        with sp [of ?k] Some al show ?thesis by (simp add: s')
      next
        case False
        show ?thesis
        proof (cases "layout_spaces s k")
          case None
          with sp [of k] False show ?thesis by (simp add: s')
        next
          case (Some b)
          with inj [of k b ?k] \<open>layout_spaces s ?k = Some a\<close> False have "b \<noteq> a" by auto
          with sp [of k] Some False show ?thesis by (simp add: s')
        qed
      qed
    qed
  qed
qed

lemma partitioned_fold: "partitioned ts (fold store_tags ts (LayoutSpaces_init db v))"
proof (induction ts rule: rev_induct)
  case Nil
  show ?case by (simp add: partitioned_init)
next
  case (snoc t ts)
  then show ?case by (simp add: partitioned_store_tags)
qed

lemma partitioned_in_space:
  assumes "partitioned ts s"
  shows "in_space s k h \<longleftrightarrow> (\<exists>t \<in> set ts. handle t = h \<and> get_key s t = k)"
proof -
  from partitioned_space [OF assms, of k] show ?thesis
    by (cases "layout_spaces s k") (auto simp: in_space_def filter_empty_conv)
qed

text \<open>
  C8: after any sequence of \<^verbatim>\<open>store_tags\<close> calls on a new registry with records of
  pairwise distinct handles, no handle is in the spaces of two keys, every stored
  handle is in the space of its record's key (hence in exactly one space), it occurs
  there once, and different keys name different spaces.
\<close>

theorem store_tags_exclusive:
  assumes d: "distinct (map handle ts)"
    and s': "s' = fold store_tags ts (LayoutSpaces_init db v)"
  shows "(\<forall>h k k'. in_space s' k h \<longrightarrow> in_space s' k' h \<longrightarrow> k = k') \<and>
         (\<forall>t \<in> set ts. in_space s' (get_key s' t) (handle t)) \<and>
         (\<forall>k a. layout_spaces s' k = Some a \<longrightarrow> distinct (space_store s' ! a)) \<and>
         (\<forall>k k' a. layout_spaces s' k = Some a \<longrightarrow> layout_spaces s' k' = Some a \<longrightarrow> k = k')"
proof -
  have p: "partitioned ts s'"
    unfolding s' by (rule partitioned_fold)
  note i = partitioned_in_space [OF p]
  from d have inj: "inj_on handle (set ts)"
    by (simp add: distinct_map)
  have "k = k'" if "in_space s' k h" "in_space s' k' h" for h k k'
  proof -
    from that obtain t t' where "t \<in> set ts" "handle t = h" "get_key s' t = k"
      "t' \<in> set ts" "handle t' = h" "get_key s' t' = k'"
      unfolding i by blast
    with inj have "t = t'" by (auto dest: inj_onD)
    with \<open>get_key s' t = k\<close> \<open>get_key s' t' = k'\<close> show ?thesis by simp
  qed
  moreover have "\<forall>t \<in> set ts. in_space s' (get_key s' t) (handle t)"
    unfolding i by blast
  moreover have "distinct (space_store s' ! a)" if "layout_spaces s' k = Some a" for k a
  proof -
    from partitioned_space [OF p, of k] that
    have "space_store s' ! a = map handle (filter (\<lambda>t. get_key s' t = k) ts)"
      by simp
    with d show ?thesis by (simp add: distinct_map_filter)
  qed
  moreover have "k = k'" if "layout_spaces s' k = Some a" "layout_spaces s' k' = Some a" for k k' a
    using p that by (auto simp: partitioned_def)
  ultimately show ?thesis by blast
qed

theorem store_tags_exclusive_witness:
  "distinct (map handle [rec_A, rec_B, rec_C, rec_D]) \<and>
   in_space mixed_registry 0 ''A'' \<and> in_space mixed_registry 100 ''D'' \<and>
   \<not> in_space mixed_registry 100 ''A'' \<and> \<not> in_space mixed_registry 0 ''D''"
proof -
  have d: "distinct (map handle [rec_A, rec_B, rec_C, rec_D])"
    by (simp add: rec_defs)
  note c = store_tags_exclusive [OF d mixed_registry_def]
  have k: "get_key mixed_registry rec_A = 0" "get_key mixed_registry rec_D = 100"
    by (simp_all add: mixed_registry_def LayoutSpaces_init_def rec_defs)
  have h: "handle rec_A = ''A''" "handle rec_D = ''D''"
    by (simp_all add: rec_defs)
  from c have "in_space mixed_registry (get_key mixed_registry rec_A) (handle rec_A)"
    and "in_space mixed_registry (get_key mixed_registry rec_D) (handle rec_D)"
    by simp_all
  then have a: "in_space mixed_registry 0 ''A''" and b: "in_space mixed_registry 100 ''D''"
    by (simp_all add: k h)
  from c have u: "\<And>h k k'. in_space mixed_registry k h \<Longrightarrow> in_space mixed_registry k' h \<Longrightarrow> k = k'"
    by blast
  have na: "\<not> in_space mixed_registry 100 ''A''"
    using u [OF a] by fastforce
  have nd: "\<not> in_space mixed_registry 0 ''D''"
    using u [OF b] by fastforce
  show ?thesis
    by (intro conjI d a b na nd)
qed

subsection \<open>Writing a space\<close>

lemma write_linked_chain:
  "is_chain db h rs \<Longrightarrow> write_linked db h tw = Some (Inr (tw @ rs))"
proof (induction rs arbitrary: h tw)
  case Nil
  then show ?case by (subst write_linked.simps) simp
next
  case (Cons r rs)
  then obtain h' where h: "h = Some h'" "db h' = Some r" and c: "is_chain db (link r) rs"
    by (auto split: option.splits)
  from Cons.IH [OF c, of "tw @ [r]"] h show ?case
    by (subst write_linked.simps) simp
qed

lemma write_linked_Inr:
  assumes "write_linked db h tw = Some r"
  shows "\<forall>tw'. r = Inr tw' \<longrightarrow> (\<exists>rs. is_chain db h rs \<and> tw' = tw @ rs)"
proof (induction db h tw r rule: write_linked.raw_induct)
  case (1 wl db h tw r)
  show ?case
  proof (intro allI impI)
    fix tw'
    assume r: "r = Inr tw'"
    show "\<exists>rs. is_chain db h rs \<and> tw' = tw @ rs"
    proof (cases h)
      case None
      with "1.hyps" r have "tw' = tw" by simp
      with None show ?thesis by (intro exI [of _ "[]"]) simp
    next
      case (Some h')
      with "1.hyps" r obtain t where t: "db h' = Some t"
        and w: "wl db (link t) (tw @ [t]) = Some (Inr tw')"
        by (auto split: option.splits)
      from "1.IH" [OF w] obtain rs where "is_chain db (link t) rs" "tw' = (tw @ [t]) @ rs"
        by blast
      with Some t show ?thesis by (intro exI [of _ "t # rs"]) simp
    qed
  qed
qed (fact assms)

lemma write_linked_cycle:
  assumes "write_linked db h tw = Some r"
  shows "\<not> (\<exists>h' t. h = Some h' \<and> db h' = Some t \<and> link t = Some h')"
proof (induction db h tw r rule: write_linked.raw_induct)
  case (1 wl db h tw r)
  show ?case
  proof
    assume "\<exists>h' t. h = Some h' \<and> db h' = Some t \<and> link t = Some h'"
    then obtain h' t where c: "h = Some h'" "db h' = Some t" "link t = Some h'"
      by blast
    with "1.hyps" have "wl db (Some h') (tw @ [t]) = Some r"
      by simp
    from "1.IH" [OF this] c show False
      by blast
  qed
qed (fact assms)

lemma write_handles_chains:
  "write_handles db hs tw = Some (Inr tw') \<longleftrightarrow>
     (\<exists>chains. list_all2 (\<lambda>h rs. is_chain db (Some h) rs) hs chains \<and> tw' = tw @ concat chains)"
proof (induction hs arbitrary: tw)
  case Nil
  show ?case by auto
next
  case (Cons h hs)
  show ?case
  proof
    assume w: "write_handles db (h # hs) tw = Some (Inr tw')"
    then obtain tw1 where l: "write_linked db (Some h) tw = Some (Inr tw1)"
      and r: "write_handles db hs tw1 = Some (Inr tw')"
      by (auto split: option.splits sum.splits)
    from write_linked_Inr [OF l] obtain rs where rs: "is_chain db (Some h) rs" "tw1 = tw @ rs"
      by blast
    from r Cons.IH [of tw1] obtain chains
      where "list_all2 (\<lambda>h rs. is_chain db (Some h) rs) hs chains" "tw' = tw1 @ concat chains"
      by blast
    with rs show "\<exists>chains. list_all2 (\<lambda>h rs. is_chain db (Some h) rs) (h # hs) chains \<and>
        tw' = tw @ concat chains"
      by (intro exI [of _ "rs # chains"]) simp
  next
    assume "\<exists>chains. list_all2 (\<lambda>h rs. is_chain db (Some h) rs) (h # hs) chains \<and>
        tw' = tw @ concat chains"
    then obtain rs chains where c: "is_chain db (Some h) rs"
      "list_all2 (\<lambda>h rs. is_chain db (Some h) rs) hs chains" "tw' = (tw @ rs) @ concat chains"
      by (auto simp: list_all2_Cons1)
    from c(2,3) Cons.IH [of "tw @ rs"] have "write_handles db hs (tw @ rs) = Some (Inr tw')"
      by blast
    with write_linked_chain [OF c(1), of tw] show "write_handles db (h # hs) tw = Some (Inr tw')"
      by simp
  qed
qed

text \<open>
  C5: \<^verbatim>\<open>EntitySpace.write\<close> returns normally exactly when every handle of the space
  has a link chain that ends, and then it has written, after what the tag writer held
  before, the chains of the handles in the order of the handles in the space: for
  each handle its record, followed by the records that the links lead to, up to the
  record whose link is empty.
\<close>

theorem EntitySpace_write_chains:
  "EntitySpace_write a s tw = Some (Inr tw') \<longleftrightarrow>
     (\<exists>chains. list_all2 (\<lambda>h rs. is_chain (entitydb s) (Some h) rs) (space_store s ! a) chains \<and>
        tw' = tw @ concat chains)"
  unfolding EntitySpace_write_def by (rule write_handles_chains)

lemma linked_registry_eq:
  "linked_registry =
     \<lparr> entitydb = [''A'' \<mapsto> rec_A, ''P'' \<mapsto> rec_P, ''V'' \<mapsto> rec_V],
       space_store = [[''P'', ''A'']],
       layout_spaces = [0 \<mapsto> 0], dxfversion = ''AC1018'',
       get_key = (\<lambda>t. get_first_value (noclass t) 330 0) \<rparr>"
  by (simp add: linked_registry_def op_defs rec_defs rec_P_def)

theorem EntitySpace_write_chains_witness:
  "EntitySpace_write 0 linked_registry [] = Some (Inr [rec_P, rec_V, rec_A])"
proof -
  have "list_all2 (\<lambda>h rs. is_chain (entitydb linked_registry) (Some h) rs)
          (space_store linked_registry ! 0) [[rec_P, rec_V], [rec_A]]"
    by (simp add: linked_registry_eq rec_defs rec_P_def rec_V_def)
  then have "\<exists>chains. list_all2 (\<lambda>h rs. is_chain (entitydb linked_registry) (Some h) rs)
          (space_store linked_registry ! 0) chains \<and>
          [rec_P, rec_V, rec_A] = [] @ concat chains"
    by (intro exI [of _ "[[rec_P, rec_V], [rec_A]]"]) simp
  then show ?thesis
    by (simp only: EntitySpace_write_chains)
qed

subsection \<open>Repairing the owner tags\<close>

text \<open>
  C2: \<^verbatim>\<open>repair_owner_tags\<close> returns at once and leaves the whole state (registry,
  spaces and database) as it is when the format version is at most \<^verbatim>\<open>AC1009\<close>, and
  when no space is registered under key 0.
\<close>

theorem repair_owner_tags_noop:
  "dxfversion s \<le> ''AC1009'' \<or> layout_spaces s 0 = None
     \<Longrightarrow> repair_owner_tags mk pk s = Some (Inr s)"
  by (auto simp: repair_owner_tags_def)

theorem repair_owner_tags_noop_witness:
  "(dxfversion legacy_registry \<le> ''AC1009'' \<and> layout_spaces legacy_registry 0 = Some 0 \<and>
    repair_owner_tags 100 200 legacy_registry = Some (Inr legacy_registry)) \<and>
   (\<not> dxfversion owned_registry \<le> ''AC1009'' \<and> layout_spaces owned_registry 0 = None \<and>
    repair_owner_tags 100 200 owned_registry = Some (Inr owned_registry))"
proof -
  have l: "dxfversion legacy_registry \<le> ''AC1009''"
    by (simp add: legacy_registry_eq)
  have l0: "layout_spaces legacy_registry 0 = Some 0"
    by (simp add: legacy_registry_eq)
  have n: "\<not> dxfversion owned_registry \<le> ''AC1009''"
    by (simp add: owned_registry_eq)
  have o: "layout_spaces owned_registry 0 = None"
    by (simp add: owned_registry_eq)
  show ?thesis
    by (intro conjI l l0 n o repair_owner_tags_noop [OF disjI1 [OF l]]
        repair_owner_tags_noop [OF disjI2 [OF o]])
qed

subsection \<open>The tag-fix pass\<close>

lemma get_set_first: "get_first_value_nodefault (set_first ts c v) c = Inr v"
  by (induction ts c v rule: set_first.induct) auto

lemma update_body_Inr:
  assumes "update_entity_tags_body mk pk h s = Inr s'"
  shows "\<exists>t et. entitydb s h = Some t \<and> get_subclass (subclasses t) ''AcDbEntity'' = Inr et \<and>
           s' = s\<lparr>entitydb := (entitydb s)(h \<mapsto>
                  t\<lparr>noclass := set_first (noclass t) 330
                      (if get_first_value et 67 0 = 0 then mk else pk)\<rparr>)\<rparr>"
  using assms
  by (auto simp: update_entity_tags_body_def get_tags_by_handle_def Let_def
      split: option.splits sum.splits)

lemma update_body_Inl:
  assumes "update_entity_tags_body mk pk h s = Inl (e, s')"
  shows "s' = s"
  using assms
  by (auto simp: update_entity_tags_body_def get_tags_by_handle_def Let_def
      split: option.splits sum.splits)

lemma update_body_fixed:
  assumes "update_entity_tags_body mk pk h s = Inr s'"
  shows "owner_fixed mk pk (entitydb s') h"
    and "owner_fixed mk pk (entitydb s) h' \<Longrightarrow> owner_fixed mk pk (entitydb s') h'"
    and "same_subclasses (entitydb s) (entitydb s')"
    and "space_store s' = space_store s" and "layout_spaces s' = layout_spaces s"
proof -
  from update_body_Inr [OF assms] obtain t et
    where t: "entitydb s h = Some t"
      and et: "get_subclass (subclasses t) ''AcDbEntity'' = Inr et"
      and s': "s' = s\<lparr>entitydb := (entitydb s)(h \<mapsto>
                  t\<lparr>noclass := set_first (noclass t) 330
                      (if get_first_value et 67 0 = 0 then mk else pk)\<rparr>)\<rparr>"
    by blast
  show "owner_fixed mk pk (entitydb s') h"
    by (simp add: owner_fixed_def s' et get_set_first)
  then show "owner_fixed mk pk (entitydb s) h' \<Longrightarrow> owner_fixed mk pk (entitydb s') h'"
    by (cases "h' = h") (simp_all add: owner_fixed_def s')
  show "same_subclasses (entitydb s) (entitydb s')"
    by (simp add: same_subclasses_def s' t)
  show "space_store s' = space_store s" and "layout_spaces s' = layout_spaces s"
    by (simp_all add: s')
qed

lemma same_subclasses_refl: "same_subclasses db db"
  by (simp add: same_subclasses_def)

lemma same_subclasses_trans:
  "same_subclasses db db' \<Longrightarrow> same_subclasses db' db'' \<Longrightarrow> same_subclasses db db''"
  by (simp add: same_subclasses_def)

lemma update_loop_Inr:
  assumes "update_entity_tags_loop mk pk hs s = Inr s'"
  shows "(\<forall>h \<in> set hs. owner_fixed mk pk (entitydb s') h) \<and>
         (\<forall>h. owner_fixed mk pk (entitydb s) h \<longrightarrow> owner_fixed mk pk (entitydb s') h) \<and>
         same_subclasses (entitydb s) (entitydb s') \<and>
         space_store s' = space_store s \<and> layout_spaces s' = layout_spaces s"
  using assms
proof (induction hs arbitrary: s)
  case Nil
  then show ?case by (simp add: same_subclasses_refl)
next
  case (Cons h hs)
  from Cons.prems obtain s1 where b: "update_entity_tags_body mk pk h s = Inr s1"
    and l: "update_entity_tags_loop mk pk hs s1 = Inr s'"
    by (auto split: sum.splits)
  note f = update_body_fixed [OF b]
  note ih = Cons.IH [OF l]
  show ?case
    using f ih by (auto intro: same_subclasses_trans)
qed

lemma update_loop_Inl:
  assumes "update_entity_tags_loop mk pk hs s = Inl (e, s')"
  shows "space_store s' = space_store s \<and> layout_spaces s' = layout_spaces s"
  using assms
proof (induction hs arbitrary: s)
  case Nil
  then show ?case by simp
next
  case (Cons h hs)
  show ?case
  proof (cases "update_entity_tags_body mk pk h s")
    case (Inl p)
    with Cons.prems update_body_Inl [of mk pk h s "fst p" "snd p"] show ?thesis by auto
  next
    case (Inr s1)
    with Cons.prems have "update_entity_tags_loop mk pk hs s1 = Inl (e, s')" by simp
    from Cons.IH [OF this] update_body_fixed(4,5) [OF Inr] show ?thesis by simp
  qed
qed

subsection \<open>The redistribution pass\<close>

lemma add_handle_simps [simp]:
  "entitydb (add_handle a h s) = entitydb s"
  "layout_spaces (add_handle a h s) = layout_spaces s"
  "dxfversion (add_handle a h s) = dxfversion s"
  "get_key (add_handle a h s) = get_key s"
  "length (space_store (add_handle a h s)) = length (space_store s)"
  by (simp_all add: add_handle_def)

lemma add_handle_nth:
  "space_store (add_handle a h s) ! b =
     (if b = a \<and> a < length (space_store s) then space_store s ! a @ [h] else space_store s ! b)"
  by (cases "b = a") (simp_all add: add_handle_def list_update_beyond)

lemma distribute_body_Inr:
  assumes "distribute_body mk pk am ap h s = Inr s1"
  shows "\<exists>t d. entitydb s h = Some t \<and> s1 = add_handle d h s \<and>
           ((get_first_value_nodefault (noclass t) 330 = Inr mk \<and> d = am) \<or>
            (get_first_value_nodefault (noclass t) 330 = Inr pk \<and> pk \<noteq> mk \<and> d = ap))"
  using assms
  by (auto simp: distribute_body_def get_tags_by_handle_def split: option.splits sum.splits if_splits)

lemma distribute_body_Inl:
  assumes "distribute_body mk pk am ap h s = Inl (e, s1)"
  shows "s1 = s"
  using assms
  by (auto simp: distribute_body_def get_tags_by_handle_def split: option.splits sum.splits if_splits)

lemma distribute_loop_Inr:
  assumes "distribute_loop mk pk a0 am ap i s = Some r"
  shows "\<forall>s'. r = Inr s' \<longrightarrow> am < length (space_store s) \<longrightarrow> ap < length (space_store s) \<longrightarrow>
           a0 < length (space_store s) \<longrightarrow>
           entitydb s' = entitydb s \<and> layout_spaces s' = layout_spaces s \<and>
           dxfversion s' = dxfversion s \<and> get_key s' = get_key s \<and>
           length (space_store s') = length (space_store s) \<and>
           (\<forall>b. set (space_store s ! b) \<subseteq> set (space_store s' ! b)) \<and>
           (\<forall>j. i \<le> j \<and> j < length (space_store s ! a0) \<longrightarrow>
                routed mk pk a0 am ap (entitydb s) (space_store s') (space_store s ! a0 ! j))"
proof (induction mk pk a0 am ap i s r rule: distribute_loop.raw_induct)
  case (1 loop mk pk a0 am ap i s r)
  show ?case
  proof (intro allI impI)
    fix s'
    assume r: "r = Inr s'"
      and am: "am < length (space_store s)" and ap: "ap < length (space_store s)"
      and a0: "a0 < length (space_store s)"
    let ?L = "length (space_store s ! a0)"
    let ?C = "\<lambda>s s'. entitydb s' = entitydb s \<and> layout_spaces s' = layout_spaces s \<and>
           dxfversion s' = dxfversion s \<and> get_key s' = get_key s \<and>
           length (space_store s') = length (space_store s) \<and>
           (\<forall>b. set (space_store s ! b) \<subseteq> set (space_store s' ! b))"
    have "?C s s' \<and> (\<forall>j. i \<le> j \<and> j < ?L \<longrightarrow>
                routed mk pk a0 am ap (entitydb s) (space_store s') (space_store s ! a0 ! j))"
    proof (cases "i < ?L")
      case False
      with "1.hyps" r show ?thesis by auto
    next
      case True
      let ?h = "space_store s ! a0 ! i"
      from "1.hyps" True r obtain s1
        where b: "distribute_body mk pk am ap ?h s = Inr s1"
          and l: "loop mk pk a0 am ap (Suc i) s1 = Some (Inr s')"
        by (auto split: sum.splits)
      from distribute_body_Inr [OF b] obtain t d
        where t: "entitydb s ?h = Some t" and s1: "s1 = add_handle d ?h s"
          and d: "(get_first_value_nodefault (noclass t) 330 = Inr mk \<and> d = am) \<or>
                  (get_first_value_nodefault (noclass t) 330 = Inr pk \<and> pk \<noteq> mk \<and> d = ap)"
        by blast
      from d am ap have dl: "d < length (space_store s)" by auto
      from "1.IH" [OF l] am ap a0
      have ih: "?C s1 s'"
        and ihj: "\<And>j. Suc i \<le> j \<Longrightarrow> j < length (space_store s1 ! a0) \<Longrightarrow>
                routed mk pk a0 am ap (entitydb s1) (space_store s') (space_store s1 ! a0 ! j)"
        by (simp_all add: s1)
      have mono: "\<And>b. set (space_store s ! b) \<subseteq> set (space_store s1 ! b)"
        by (auto simp: s1 add_handle_nth)
      have C: "?C s s'"
        using ih mono by (simp add: s1) blast
      have hin: "?h \<in> set (space_store s' ! d)"
      proof -
        have "?h \<in> set (space_store s1 ! d)"
          using dl by (simp add: s1 add_handle_nth)
        with ih show ?thesis by blast
      qed
      have dne: "d \<noteq> a0"
      proof
        assume e: "d = a0"
        then have "space_store s1 ! a0 = space_store s ! a0 @ [?h]"
          using a0 by (simp add: s1 add_handle_nth)
        then have "length (space_store s1 ! a0) = Suc ?L"
          and "space_store s1 ! a0 ! ?L = ?h"
          by simp_all
        with ihj [of ?L] True
        have "routed mk pk a0 am ap (entitydb s) (space_store s') ?h"
          by (simp add: s1)
        with t d e show False
          by (auto simp: routed_def)
      qed
      have same: "space_store s1 ! a0 = space_store s ! a0"
        using dne by (simp add: s1 add_handle_nth)
      have "routed mk pk a0 am ap (entitydb s) (space_store s') (space_store s ! a0 ! j)"
        if j: "i \<le> j" "j < ?L" for j
      proof (cases "j = i")
        case True
        with t d dne hin show ?thesis
          by (auto simp: routed_def)
      next
        case False
        with j ihj [of j] same show ?thesis
          by (simp add: s1)
      qed
      with C show ?thesis by blast
    qed
    then show "entitydb s' = entitydb s \<and> layout_spaces s' = layout_spaces s \<and>
           dxfversion s' = dxfversion s \<and> get_key s' = get_key s \<and>
           length (space_store s') = length (space_store s) \<and>
           (\<forall>b. set (space_store s ! b) \<subseteq> set (space_store s' ! b)) \<and>
           (\<forall>j. i \<le> j \<and> j < length (space_store s ! a0) \<longrightarrow>
                routed mk pk a0 am ap (entitydb s) (space_store s') (space_store s ! a0 ! j))"
      by blast
  qed
qed (fact assms)

lemma distribute_loop_Inl:
  assumes "distribute_loop mk pk a0 am ap i s = Some r"
  shows "\<forall>e s'. r = Inl (e, s') \<longrightarrow>
           entitydb s' = entitydb s \<and> layout_spaces s' = layout_spaces s \<and>
           (a0 \<noteq> am \<longrightarrow> a0 \<noteq> ap \<longrightarrow> space_store s' ! a0 = space_store s ! a0)"
proof (induction mk pk a0 am ap i s r rule: distribute_loop.raw_induct)
  case (1 loop mk pk a0 am ap i s r)
  show ?case
  proof (intro allI impI)
    fix e s'
    assume r: "r = Inl (e, s')"
    with "1.hyps" have lt: "i < length (space_store s ! a0)"
      by (auto split: if_splits)
    let ?h = "space_store s ! a0 ! i"
    show "entitydb s' = entitydb s \<and> layout_spaces s' = layout_spaces s \<and>
           (a0 \<noteq> am \<longrightarrow> a0 \<noteq> ap \<longrightarrow> space_store s' ! a0 = space_store s ! a0)"
    proof (cases "distribute_body mk pk am ap ?h s")
      case (Inl p)
      with "1.hyps" lt r have "p = (e, s')" by simp
      with Inl distribute_body_Inl [of mk pk am ap ?h s e s'] show ?thesis by simp
    next
      case (Inr s1)
      with "1.hyps" lt r have l: "loop mk pk a0 am ap (Suc i) s1 = Some (Inl (e, s'))"
        by simp
      from distribute_body_Inr [OF Inr] obtain d
        where s1: "s1 = add_handle d ?h s" and d: "d = am \<or> d = ap"
        by blast
      from "1.IH" [OF l] d show ?thesis
        by (auto simp: s1 add_handle_nth)
    qed
  qed
qed (fact assms)

lemma distribute_loop_no_error:
  assumes "distribute_loop mk pk a0 am ap i s = Some r"
  shows "(\<forall>h \<in> set (space_store s ! a0). owner_fixed mk pk (entitydb s) h) \<longrightarrow> (\<forall>e. r \<noteq> Inl e)"
proof (induction mk pk a0 am ap i s r rule: distribute_loop.raw_induct)
  case (1 loop mk pk a0 am ap i s r)
  show ?case
  proof (intro allI impI notI)
    fix e
    assume fixed: "\<forall>h \<in> set (space_store s ! a0). owner_fixed mk pk (entitydb s) h"
      and r: "r = Inl e"
    with "1.hyps" have lt: "i < length (space_store s ! a0)"
      by (auto split: if_splits)
    let ?h = "space_store s ! a0 ! i"
    from lt fixed have "owner_fixed mk pk (entitydb s) ?h"
      by simp
    then obtain t k where "entitydb s ?h = Some t"
      and "get_first_value_nodefault (noclass t) 330 = Inr k" and "k = mk \<or> k = pk"
      by (auto simp: owner_fixed_def split: option.splits sum.splits if_splits)
    then have "\<exists>d. distribute_body mk pk am ap ?h s = Inr (add_handle d ?h s)"
      by (auto simp: distribute_body_def get_tags_by_handle_def)
    then obtain d where b: "distribute_body mk pk am ap ?h s = Inr (add_handle d ?h s)"
      by blast
    with "1.hyps" lt r have l: "loop mk pk a0 am ap (Suc i) (add_handle d ?h s) = Some (Inl e)"
      by simp
    have "set (space_store (add_handle d ?h s) ! a0) \<subseteq> set (space_store s ! a0)"
      using lt by (auto simp: add_handle_nth)
    with fixed "1.IH" [OF l] show False
      by auto
  qed
qed (fact assms)





subsection \<open>The two passes together\<close>

lemma get_entity_space_frame:
  assumes "get_entity_space k s = (a, s')"
  shows "entitydb s' = entitydb s" and "dxfversion s' = dxfversion s"
    and "get_key s' = get_key s"
    and "length (space_store s) \<le> length (space_store s')"
    and "concat (space_store s') = concat (space_store s)"
    and "\<And>b. b < length (space_store s) \<Longrightarrow> space_store s' ! b = space_store s ! b"
    and "\<And>k'. k' \<noteq> k \<Longrightarrow> layout_spaces s' k' = layout_spaces s k'"
    and "\<And>b. layout_spaces s k = Some b \<Longrightarrow> a = b \<and> s' = s"
    and "layout_spaces s k = None \<Longrightarrow> a = length (space_store s)"
  using assms
  by (auto simp: get_entity_space_def EntitySpace_init_def set_entity_space_def nth_append
      split: option.splits)

lemma wf_stateD: "wf_state s \<Longrightarrow> layout_spaces s k = Some a \<Longrightarrow> a < length (space_store s)"
  by (simp add: wf_state_def)

text \<open>What the calls before the two passes establish.\<close>

lemma repair_setup:
  assumes wf: "wf_state s" and t: "layout_spaces s 0 = Some a0"
    and g1: "get_entity_space mk s = (am, s1)" and g2: "get_entity_space pk s1 = (ap, s2)"
  shows "entitydb s2 = entitydb s" and "space_store s2 ! a0 = space_store s ! a0"
    and "a0 < length (space_store s2)" and "am < length (space_store s2)"
    and "ap < length (space_store s2)"
    and "layout_spaces s2 0 = Some a0" and "layout_spaces s2 mk = Some am"
    and "layout_spaces s2 pk = Some ap"
    and "mk = 0 \<Longrightarrow> am = a0" and "pk = 0 \<Longrightarrow> ap = a0"
    and "concat (space_store s2) = concat (space_store s)"
    and "layout_spaces s mk \<noteq> Some a0 \<Longrightarrow> am \<noteq> a0"
    and "layout_spaces s pk \<noteq> Some a0 \<Longrightarrow> ap \<noteq> a0"
proof -
  note w1 = wf_get_entity_space [OF wf g1]
  note w2 = wf_get_entity_space [OF w1(1) g2]
  note f1 = get_entity_space_frame [OF g1]
  note f2 = get_entity_space_frame [OF g2]
  have a0: "a0 < length (space_store s)"
    using wf t by (rule wf_stateD)
  have t1: "layout_spaces s1 0 = Some a0"
    using f1(7) [of 0] f1(8) t w1(3) by (cases "mk = 0") auto
  show t2: "layout_spaces s2 0 = Some a0"
    using f2(7) [of 0] f2(8) t1 w2(3) by (cases "pk = 0") auto
  show "entitydb s2 = entitydb s"
    using f1(1) f2(1) by simp
  show "space_store s2 ! a0 = space_store s ! a0"
    using f1(4,6) f2(6) a0 by simp
  show "a0 < length (space_store s2)"
    using a0 f1(4) f2(4) by simp
  show "am < length (space_store s2)"
    using w1(2) f2(4) by simp
  show "ap < length (space_store s2)"
    by (rule w2(2))
  show m2: "layout_spaces s2 mk = Some am"
    using f2(7) [of mk] f2(8) w1(3) by (cases "pk = mk") auto
  show p2: "layout_spaces s2 pk = Some ap"
    by (rule w2(3))
  show "am = a0" if "mk = 0"
    using that m2 t2 by simp
  show "ap = a0" if "pk = 0"
    using that p2 t2 by simp
  show "concat (space_store s2) = concat (space_store s)"
    using f1(5) f2(5) by simp
  show "am \<noteq> a0" if "layout_spaces s mk \<noteq> Some a0"
  proof (cases "layout_spaces s mk")
    case None
    with f1(9) a0 show ?thesis by simp
  next
    case (Some b)
    with f1(8) that show ?thesis by auto
  qed
  show "ap \<noteq> a0" if n: "layout_spaces s pk \<noteq> Some a0"
  proof (cases "layout_spaces s1 pk")
    case None
    with f2(9) a0 f1(4) show ?thesis by simp
  next
    case (Some b)
    with f2(8) have ab: "ap = b" by simp
    show ?thesis
    proof (cases "pk = mk")
      case True
      with Some w1(3) ab have "ap = am" by simp
      with \<open>layout_spaces s mk \<noteq> Some a0 \<Longrightarrow> am \<noteq> a0\<close> n True show ?thesis by simp
    next
      case False
      with f1(7) [of pk] Some n ab show ?thesis by auto
    qed
  qed
qed

lemma repair_unfold:
  assumes "\<not> dxfversion s \<le> ''AC1009''" and "layout_spaces s 0 = Some a0"
    and "get_entity_space mk s = (am, s1)" and "get_entity_space pk s1 = (ap, s2)"
  shows "repair_owner_tags mk pk s =
     (case update_entity_tags mk pk a0 s2 of
        Inl e \<Rightarrow> Some (Inl e)
      | Inr s3 \<Rightarrow>
          (case distribute mk pk a0 am ap s3 of
             None \<Rightarrow> None
           | Some (Inl e) \<Rightarrow> Some (Inl e)
           | Some (Inr s4) \<Rightarrow> Some (Inr (s4\<lparr>layout_spaces := (layout_spaces s4)(0 := None)\<rparr>))))"
  by (simp add: repair_owner_tags_def assms)

lemmas repair_defs =
  repair_owner_tags_def get_entity_space_def EntitySpace_init_def set_entity_space_def
  update_entity_tags_def update_entity_tags_body_def get_tags_by_handle_def
  distribute_def distribute_body_def add_handle_def

lemma repair_example:
  "repair_owner_tags 100 200 example_registry = Some (Inr repaired_registry)"
  by (simp add: example_registry_eq repaired_registry_def repair_defs distribute_loop.simps
      example_db_def rec_defs fun_eq_iff)

lemma broken_registry_eq:
  "broken_registry =
     \<lparr> entitydb = example_db(''E'' \<mapsto> rec_E), space_store = [[''A'', ''E'']],
       layout_spaces = [0 \<mapsto> 0], dxfversion = ''AC1018'',
       get_key = (\<lambda>t. get_first_value (noclass t) 330 0) \<rparr>"
  by (simp add: broken_registry_def op_defs rec_defs rec_E_def)

lemma repair_broken:
  "repair_owner_tags 100 200 broken_registry =
     Some (Inl (DXFStructureError ''Entity has no subclass 'AcDbEntity'.'',
       broken_registry\<lparr>
         entitydb := (entitydb broken_registry)(''A'' \<mapsto> rec_A\<lparr>noclass := [(5, 10), (330, 100)]\<rparr>),
         space_store := [[''A'', ''E''], [], []],
         layout_spaces := [0 \<mapsto> 0, 100 \<mapsto> 1, 200 \<mapsto> 2]\<rparr>))"
  by (simp add: broken_registry_eq repair_defs distribute_loop.simps
      example_db_def rec_defs rec_E_def fun_eq_iff)

lemma wf_broken_registry: "wf_state broken_registry"
  by (simp add: broken_registry_eq wf_state_def)


text \<open>
  C1: when the format version is later than \<^verbatim>\<open>AC1009\<close>, a temporary space is
  registered under key 0 and \<^verbatim>\<open>repair_owner_tags\<close> returns without an exception, key
  0 is no longer registered, and every handle of the temporary space is in the space
  registered under the model key when the paper-space flag of its entity was 0 (or
  missing), and in the space registered under the paper key otherwise.
\<close>

theorem repair_owner_tags_correct:
  assumes wf: "wf_state s" and ver: "\<not> dxfversion s \<le> ''AC1009''"
    and t: "layout_spaces s 0 = Some a0"
    and rep: "repair_owner_tags mk pk s = Some (Inr s')"
  shows "layout_spaces s' 0 = None \<and>
         (\<forall>h \<in> set (space_store s ! a0).
            \<exists>t et. entitydb s h = Some t \<and>
                   get_subclass (subclasses t) ''AcDbEntity'' = Inr et \<and>
                   in_space s' (if get_first_value et 67 0 = 0 then mk else pk) h)"
proof -
  obtain am s1 where g1: "get_entity_space mk s = (am, s1)" by (cases "get_entity_space mk s")
  obtain ap s2 where g2: "get_entity_space pk s1 = (ap, s2)" by (cases "get_entity_space pk s1")
  note su = repair_setup [OF wf t g1 g2]
  from rep obtain s3 s4
    where u: "update_entity_tags mk pk a0 s2 = Inr s3"
      and d: "distribute mk pk a0 am ap s3 = Some (Inr s4)"
      and s': "s' = s4\<lparr>layout_spaces := (layout_spaces s4)(0 := None)\<rparr>"
    unfolding repair_unfold [OF ver t g1 g2]
    by (auto split: sum.splits option.splits)
  from u have ul: "update_entity_tags_loop mk pk (space_store s ! a0) s2 = Inr s3"
    by (simp add: update_entity_tags_def su(2))
  note up = update_loop_Inr [OF ul]
  from up have st3: "space_store s3 = space_store s2" and ls3: "layout_spaces s3 = layout_spaces s2"
    by simp_all
  from d have dl: "distribute_loop mk pk a0 am ap 0 s3 = Some (Inr s4)"
    by (simp add: distribute_def)
  from distribute_loop_Inr [OF dl] su(3,4,5)
  have ls4: "layout_spaces s4 = layout_spaces s2"
    and ro: "\<And>j. j < length (space_store s ! a0) \<Longrightarrow>
              routed mk pk a0 am ap (entitydb s3) (space_store s4) (space_store s ! a0 ! j)"
    by (simp_all add: st3 ls3 su(2))
  have "\<exists>t et. entitydb s h = Some t \<and>
                   get_subclass (subclasses t) ''AcDbEntity'' = Inr et \<and>
                   in_space s' (if get_first_value et 67 0 = 0 then mk else pk) h"
    if h: "h \<in> set (space_store s ! a0)" for h
  proof -
    from h obtain j where j: "j < length (space_store s ! a0)" "space_store s ! a0 ! j = h"
      by (auto simp: in_set_conv_nth)
    from up h have "owner_fixed mk pk (entitydb s3) h" by blast
    then obtain t3 et where t3: "entitydb s3 h = Some t3"
      and et: "get_subclass (subclasses t3) ''AcDbEntity'' = Inr et"
      and ow: "get_first_value_nodefault (noclass t3) 330 =
                 Inr (if get_first_value et 67 0 = 0 then mk else pk)"
      by (auto simp: owner_fixed_def split: option.splits sum.splits)
    from up have "map_option subclasses (entitydb s3 h) = map_option subclasses (entitydb s2 h)"
      by (simp add: same_subclasses_def)
    with t3 su(1) obtain t where t: "entitydb s h = Some t" "subclasses t = subclasses t3"
      by (cases "entitydb s h") auto
    from ro [OF j(1)] j(2) t3
    have r: "(get_first_value_nodefault (noclass t3) 330 = Inr mk \<and> am \<noteq> a0 \<and> h \<in> set (space_store s4 ! am)) \<or>
          (get_first_value_nodefault (noclass t3) 330 = Inr pk \<and> pk \<noteq> mk \<and> ap \<noteq> a0 \<and> h \<in> set (space_store s4 ! ap))"
      by (simp add: routed_def)
    have "in_space s' (if get_first_value et 67 0 = 0 then mk else pk) h"
    proof (cases "get_first_value et 67 0 = 0")
      case True
      with ow r have "am \<noteq> a0" and "h \<in> set (space_store s4 ! am)" by auto
      moreover from \<open>am \<noteq> a0\<close> su(9) have "mk \<noteq> 0" by blast
      ultimately show ?thesis
        using True su(7) by (simp add: in_space_def s' ls4)
    next
      case False
      with ow r have c: "(pk = mk \<and> am \<noteq> a0 \<and> h \<in> set (space_store s4 ! am)) \<or>
          (ap \<noteq> a0 \<and> h \<in> set (space_store s4 ! ap))" by auto
      then show ?thesis
      proof
        assume a: "pk = mk \<and> am \<noteq> a0 \<and> h \<in> set (space_store s4 ! am)"
        with su(9) have "mk \<noteq> 0" by blast
        with a False su(7) show ?thesis by (simp add: in_space_def s' ls4)
      next
        assume a: "ap \<noteq> a0 \<and> h \<in> set (space_store s4 ! ap)"
        with su(10) have "pk \<noteq> 0" by blast
        with a False su(8) show ?thesis by (simp add: in_space_def s' ls4)
      qed
    qed
    with t et show ?thesis by simp
  qed
  moreover have "layout_spaces s' 0 = None" by (simp add: s')
  ultimately show ?thesis by blast
qed

theorem repair_owner_tags_correct_witness:
  "wf_state example_registry \<and> \<not> dxfversion example_registry \<le> ''AC1009'' \<and>
   layout_spaces example_registry 0 = Some 0 \<and>
   repair_owner_tags 100 200 example_registry = Some (Inr repaired_registry) \<and>
   layout_spaces repaired_registry 0 = None \<and>
   in_space repaired_registry 100 ''A'' \<and>
   in_space repaired_registry 200 ''B'' \<and>
   in_space repaired_registry 100 ''C''"
proof -
  have v: "\<not> dxfversion example_registry \<le> ''AC1009''"
    and t: "layout_spaces example_registry 0 = Some 0"
    by (simp_all add: example_registry_eq)
  note c = repair_owner_tags_correct [OF wf_example_registry v t repair_example]
  have "space_store example_registry ! 0 = [''A'', ''B'', ''C'']"
    and "entitydb example_registry = example_db"
    by (simp_all add: example_registry_eq)
  with c have "layout_spaces repaired_registry 0 = None"
    and "in_space repaired_registry 100 ''A''"
    and "in_space repaired_registry 200 ''B''"
    and "in_space repaired_registry 100 ''C''"
    by (simp_all add: example_db_def rec_defs)
  with wf_example_registry v t repair_example show ?thesis
    by (intro conjI)
qed

text \<open>
  C10: when \<^verbatim>\<open>repair_owner_tags\<close> ends with an exception, the temporary space is
  still registered under key 0 and its handle list is what it was before the call.
  The exception can only come from the tag-fix pass (a handle without a record, or a
  record without the \<^verbatim>\<open>AcDbEntity\<close> group): after that pass every owner tag is one of
  the two keys, so the redistribution pass of the same call raises nothing
  (\<open>distribute_loop_no_error\<close>). Taken alone, the redistribution pass leaves the
  registry as it is when it raises, and the temporary list too unless that list is
  the model or paper space (\<open>distribute_loop_Inl\<close>).
\<close>

theorem repair_owner_tags_failure:
  assumes wf: "wf_state s" and t: "layout_spaces s 0 = Some a0"
    and rep: "repair_owner_tags mk pk s = Some (Inl (e, s'))"
  shows "layout_spaces s' 0 = Some a0 \<and> space_store s' ! a0 = space_store s ! a0"
proof -
  from rep have ver: "\<not> dxfversion s \<le> ''AC1009''"
    by (auto simp: repair_owner_tags_def)
  obtain am s1 where g1: "get_entity_space mk s = (am, s1)" by (cases "get_entity_space mk s")
  obtain ap s2 where g2: "get_entity_space pk s1 = (ap, s2)" by (cases "get_entity_space pk s1")
  note su = repair_setup [OF wf t g1 g2]
  show ?thesis
  proof (cases "update_entity_tags mk pk a0 s2")
    case (Inl p)
    with rep have "update_entity_tags_loop mk pk (space_store s2 ! a0) s2 = Inl (e, s')"
      unfolding repair_unfold [OF ver t g1 g2] by (simp add: update_entity_tags_def)
    from update_loop_Inl [OF this] su(2,6) show ?thesis by simp
  next
    case (Inr s3)
    then have ul: "update_entity_tags_loop mk pk (space_store s2 ! a0) s2 = Inr s3"
      by (simp add: update_entity_tags_def)
    from rep Inr have "distribute_loop mk pk a0 am ap 0 s3 = Some (Inl (e, s'))"
      unfolding repair_unfold [OF ver t g1 g2]
      by (auto simp: distribute_def split: option.splits sum.splits)
    from distribute_loop_no_error [OF this] update_loop_Inr [OF ul]
    show ?thesis by auto
  qed
qed

theorem repair_owner_tags_failure_witness:
  "wf_state broken_registry \<and> layout_spaces broken_registry 0 = Some 0 \<and>
   repair_owner_tags 100 200 broken_registry =
     Some (Inl (DXFStructureError ''Entity has no subclass 'AcDbEntity'.'',
       broken_registry\<lparr>
         entitydb := (entitydb broken_registry)(''A'' \<mapsto> rec_A\<lparr>noclass := [(5, 10), (330, 100)]\<rparr>),
         space_store := [[''A'', ''E''], [], []],
         layout_spaces := [0 \<mapsto> 0, 100 \<mapsto> 1, 200 \<mapsto> 2]\<rparr>)) \<and>
   space_store broken_registry ! 0 = [''A'', ''E''] \<and>
   layout_spaces (broken_registry\<lparr>
         entitydb := (entitydb broken_registry)(''A'' \<mapsto> rec_A\<lparr>noclass := [(5, 10), (330, 100)]\<rparr>),
         space_store := [[''A'', ''E''], [], []],
         layout_spaces := [0 \<mapsto> 0, 100 \<mapsto> 1, 200 \<mapsto> 2]\<rparr>) 0 = Some 0 \<and>
   space_store (broken_registry\<lparr>
         entitydb := (entitydb broken_registry)(''A'' \<mapsto> rec_A\<lparr>noclass := [(5, 10), (330, 100)]\<rparr>),
         space_store := [[''A'', ''E''], [], []],
         layout_spaces := [0 \<mapsto> 0, 100 \<mapsto> 1, 200 \<mapsto> 2]\<rparr>) ! 0 = space_store broken_registry ! 0"
proof -
  have t: "layout_spaces broken_registry 0 = Some 0"
    and l: "space_store broken_registry ! 0 = [''A'', ''E'']"
    by (simp_all add: broken_registry_eq)
  note c = repair_owner_tags_failure [OF wf_broken_registry t repair_broken]
  show ?thesis
    by (intro conjI wf_broken_registry t repair_broken l conjunct1 [OF c] conjunct2 [OF c])
qed






end
